theory Spec2Isabelle
  imports Main
begin

section \<open>Data model\<close>

text \<open>
  Values are JavaScript values of type \<open>any\<close>. The object model tests them against
  \<open>undefined\<close> (the unset sentinel) and compares them with strict equality \<open>===\<close>.
  Strict equality is not reflexive: \<open>NaN === NaN\<close> is false. So \<open>NaN\<close> is a value of
  its own, and \<open>Val\<close> carries every other value, two of them being the same \<open>Val\<close>
  exactly when \<open>===\<close> holds of them (objects by identity, \<open>+0\<close> and \<open>-0\<close> as one
  number).
\<close>

datatype 'v jsval = Undefined | NaN | Val 'v

text \<open>\<open>a === b\<close>\<close>

definition strict_eq :: "'v jsval \<Rightarrow> 'v jsval \<Rightarrow> bool" where
  "strict_eq a b = (a = b \<and> a \<noteq> NaN)"

text \<open>\<open>GraphPropertyIdLike\<close>, \<open>GraphCategoryIdLike\<close> and \<open>GraphSchemaNameLike\<close>
  are \<open>string | symbol\<close>; ids are modelled as strings.\<close>

type_synonym idlike = string

text \<open>
  \<open>GraphProperty\<close> (graphProperty.ts): an object with an \<open>_id\<close>. Objects are compared
  by identity, so the record carries a reference besides the id: two properties with the
  same id and different references are different keys of a \<open>Map\<close>.
\<close>

record property =
  prop_ref :: nat
  prop_id :: idlike

text \<open>
  Modelled from the spec: \<open>GraphCategory\<close> (graphCategory.ts is not part of the sources).
  A category has an id and at most one parent \<open>basedOn\<close>; the chain is acyclic, which the
  recursive datatype expresses. The reference stands for object identity.
\<close>

datatype category =
  Category (cat_ref: nat) (cat_id: idlike) (basedOn: "category option")

text \<open>
  Modelled from the spec: \<open>GraphMetadata\<close> (graphMetadata.ts is not part of the sources).
  The fields are the members that \<open>GraphObject\<close> reads: \<open>defaultValue\<close>, \<open>isImmutable\<close>,
  \<open>isRemovable\<close>, \<open>isSharable\<close>, \<open>canValidate\<close>, \<open>validate(value)\<close>, and for the
  metadata of a category \<open>hasOwn(property)\<close> and \<open>get(property)\<close>.
\<close>

record 'v metadata =
  defaultValue :: "'v jsval"
  isImmutable :: bool
  isRemovable :: bool
  isSharable :: bool
  canValidate :: bool
  validate :: "'v jsval \<Rightarrow> bool"
  hasOwn :: "property \<Rightarrow> bool"
  metadata_get :: "property \<Rightarrow> 'v jsval"

text \<open>
  \<open>GraphSchema\<close>: a name, and three lazily created collections, each \<open>undefined\<close> until
  first used. \<open>GraphSchemaCollection\<close> is iterated in child-registration order (a list);
  of \<open>GraphCategoryCollection\<close> and \<open>GraphPropertyCollection\<close> only \<open>get(id)\<close> is
  used here, so a collection is its lookup function.
\<close>

datatype schema =
  GraphSchema
    (schema_name: idlike)
    (schema_schemas: "schema list option")
    (schema_categories: "(idlike \<Rightarrow> category option) option")
    (schema_properties: "(idlike \<Rightarrow> property option) option")

text \<open>\<open>Graph\<close> (graph.ts is not part of the sources): an identity and its root schema.\<close>

record graph =
  graph_ref :: nat
  graph_schema :: schema

text \<open>
  The members of the classes that are not part of the sources, taken as parameters:
  \<open>GraphMetadataContainer.getMetadata(owner)\<close> and \<open>createDefaultMetadata()\<close> of a
  property, \<open>getMetadata(owner)\<close> of a category, and \<open>Graph._importMetadata(source, x)\<close>
  of the destination graph for a property. The caches these methods keep belong to the
  property, the category and the graph, not to the graph object.
\<close>

record 'v env =
  prop_getMetadata :: "property \<Rightarrow> graph \<Rightarrow> 'v metadata"
  prop_createDefaultMetadata :: "property \<Rightarrow> 'v metadata"
  cat_getMetadata :: "category \<Rightarrow> graph \<Rightarrow> 'v metadata"
  importMetadata :: "graph \<Rightarrow> graph option \<Rightarrow> property \<Rightarrow> 'v metadata option"

section \<open>GraphSchema\<close>

text \<open>\<open>allSchemas\<close>: yields this schema, then the schemas of each child in turn.\<close>

fun GraphSchema_allSchemas :: "schema \<Rightarrow> schema list" where
  "GraphSchema_allSchemas (GraphSchema n None cs ps) = [GraphSchema n None cs ps]"
| "GraphSchema_allSchemas (GraphSchema n (Some children) cs ps) =
     GraphSchema n (Some children) cs ps # concat (map GraphSchema_allSchemas children)"

text \<open>The loop of \<open>findCategory\<close> over the schemas yielded by \<open>allSchemas\<close>.\<close>

fun findCategory_loop :: "schema list \<Rightarrow> idlike \<Rightarrow> category option" where
  "findCategory_loop [] i = None"
| "findCategory_loop (s # ss) i =
     (case schema_categories s of
        None \<Rightarrow> findCategory_loop ss i
      | Some coll \<Rightarrow>
          (case coll i of
             Some c \<Rightarrow> Some c
           | None \<Rightarrow> findCategory_loop ss i))"

definition GraphSchema_findCategory :: "schema \<Rightarrow> idlike \<Rightarrow> category option" where
  "GraphSchema_findCategory s i = findCategory_loop (GraphSchema_allSchemas s) i"

fun findProperty_loop :: "schema list \<Rightarrow> idlike \<Rightarrow> property option" where
  "findProperty_loop [] i = None"
| "findProperty_loop (s # ss) i =
     (case schema_properties s of
        None \<Rightarrow> findProperty_loop ss i
      | Some coll \<Rightarrow>
          (case coll i of
             Some p \<Rightarrow> Some p
           | None \<Rightarrow> findProperty_loop ss i))"

definition GraphSchema_findProperty :: "schema \<Rightarrow> idlike \<Rightarrow> property option" where
  "GraphSchema_findProperty s i = findProperty_loop (GraphSchema_allSchemas s) i"

text \<open>What a schema defines itself: \<open>schema._categories?.get(id)\<close>.\<close>

definition own_category :: "schema \<Rightarrow> idlike \<Rightarrow> category option" where
  "own_category s i = (case schema_categories s of None \<Rightarrow> None | Some coll \<Rightarrow> coll i)"

text \<open>The children of a schema in registration order (none while \<open>_schemas\<close> is undefined).\<close>

definition child_schemas :: "schema \<Rightarrow> schema list" where
  "child_schemas s = (case schema_schemas s of None \<Rightarrow> [] | Some children \<Rightarrow> children)"

text \<open>The first result among a list of lookups, in order.\<close>

fun first_some :: "'a option list \<Rightarrow> 'a option" where
  "first_some [] = None"
| "first_some (None # xs) = first_some xs"
| "first_some (Some x # xs) = Some x"

section \<open>GraphObject\<close>

text \<open>
  The state of a \<open>GraphObject\<close>: the owner, the set of categories and the map from
  properties to values. A JavaScript \<open>Set\<close> and \<open>Map\<close> iterate in insertion order, so they
  are lists (without duplicates, without duplicate keys); both are \<open>undefined\<close> until
  first needed. The observers are not part of the model: an operation returns the list
  of events it raises, in order.
\<close>

record 'v graph_object =
  obj_owner :: "graph option"
  obj_categories :: "category list option"
  obj_properties :: "(property \<times> 'v jsval) list option"

datatype change = Add | Delete

datatype event =
  OnCategoryChanged change category
| OnPropertyChanged idlike

text \<open>An argument that is either an id or the object itself
  (\<open>isGraphPropertyIdLIke\<close>, \<open>isGraphCategoryIdLike\<close>).\<close>

datatype property_key = PropertyId idlike | PropertyObj property

datatype category_key = CategoryId idlike | CategoryObj category

subsection \<open>The operations of a JavaScript Map\<close>

definition Map_has :: "('k \<times> 'a) list \<Rightarrow> 'k \<Rightarrow> bool" where
  "Map_has m k = (map_of m k \<noteq> None)"

definition Map_get :: "('k \<times> 'v jsval) list \<Rightarrow> 'k \<Rightarrow> 'v jsval" where
  "Map_get m k = (case map_of m k of None \<Rightarrow> Undefined | Some v \<Rightarrow> v)"

fun Map_set :: "('k \<times> 'a) list \<Rightarrow> 'k \<Rightarrow> 'a \<Rightarrow> ('k \<times> 'a) list" where
  "Map_set [] k v = [(k, v)]"
| "Map_set ((k', v') # m) k v =
     (if k' = k then (k, v) # m else (k', v') # Map_set m k v)"

definition Map_delete :: "('k \<times> 'a) list \<Rightarrow> 'k \<Rightarrow> ('k \<times> 'a) list" where
  "Map_delete m k = filter (\<lambda>e. fst e \<noteq> k) m"

subsection \<open>Accessors\<close>

text \<open>The entries of \<open>_properties\<close> and the elements of \<open>_categories\<close> as every reader
  in the class sees them (\<open>?.\<close>, \<open>?? 0\<close>, \<open>!== undefined\<close>): none while the field is
  undefined.\<close>

definition entries :: "'v graph_object \<Rightarrow> (property \<times> 'v jsval) list" where
  "entries obj = (case obj_properties obj of None \<Rightarrow> [] | Some m \<Rightarrow> m)"

definition categories :: "'v graph_object \<Rightarrow> category list" where
  "categories obj = (case obj_categories obj of None \<Rightarrow> [] | Some cs \<Rightarrow> cs)"

text \<open>\<open>get schema()\<close>: \<open>this._owner?.schema\<close>.\<close>

definition GraphObject_schema :: "'v graph_object \<Rightarrow> schema option" where
  "GraphObject_schema obj = map_option graph_schema (obj_owner obj)"

text \<open>\<open>isGraphPropertyIdLIke(key) ? this.schema?.findProperty(key) : key\<close>\<close>

definition resolve_property :: "'v graph_object \<Rightarrow> property_key \<Rightarrow> property option" where
  "resolve_property obj key =
     (case key of
        PropertyObj p \<Rightarrow> Some p
      | PropertyId i \<Rightarrow>
          (case GraphObject_schema obj of
             None \<Rightarrow> None
           | Some s \<Rightarrow> GraphSchema_findProperty s i))"

text \<open>\<open>isGraphCategoryIdLike(category) ? this.schema?.findCategory(category) : category\<close>\<close>

definition resolve_category :: "'v graph_object \<Rightarrow> category_key \<Rightarrow> category option" where
  "resolve_category obj key =
     (case key of
        CategoryObj c \<Rightarrow> Some c
      | CategoryId i \<Rightarrow>
          (case GraphObject_schema obj of
             None \<Rightarrow> None
           | Some s \<Rightarrow> GraphSchema_findCategory s i))"

text \<open>\<open>this._owner ? property.getMetadata(this._owner) : property.createDefaultMetadata()\<close>\<close>

definition resolve_metadata :: "'v env \<Rightarrow> 'v graph_object \<Rightarrow> property \<Rightarrow> 'v metadata" where
  "resolve_metadata E obj p =
     (case obj_owner obj of
        Some g \<Rightarrow> prop_getMetadata E p g
      | None \<Rightarrow> prop_createDefaultMetadata E p)"

subsection \<open>Construction and categories\<close>

definition GraphObject_addCategory ::
  "'v graph_object \<Rightarrow> category \<Rightarrow> 'v graph_object \<times> event list" where
  "GraphObject_addCategory obj c =
     (let cs = (case obj_categories obj of None \<Rightarrow> [] | Some cs \<Rightarrow> cs) in
      if c \<in> set cs then (obj\<lparr>obj_categories := Some cs\<rparr>, [])
      else (obj\<lparr>obj_categories := Some (cs @ [c])\<rparr>, [OnCategoryChanged Add c]))"

text \<open>The constructor: no observer can be subscribed yet, so its event is dropped.\<close>

definition GraphObject_new :: "graph option \<Rightarrow> category option \<Rightarrow> 'v graph_object" where
  "GraphObject_new g category =
     (let obj = \<lparr>obj_owner = g, obj_categories = None, obj_properties = None\<rparr> in
      case category of
        None \<Rightarrow> obj
      | Some c \<Rightarrow> fst (GraphObject_addCategory obj c))"

text \<open>What \<open>deleteCategory\<close> returns: \<open>undefined\<close>, a boolean or the category.\<close>

datatype deleteCategory_result =
  ReturnUndefined | ReturnBool bool | ReturnCategory category

definition GraphObject_deleteCategory ::
  "'v graph_object \<Rightarrow> category_key \<Rightarrow> 'v graph_object \<times> event list \<times> deleteCategory_result" where
  "GraphObject_deleteCategory obj key =
     (case resolve_category obj key of
        None \<Rightarrow> (obj, [], ReturnUndefined)
      | Some c \<Rightarrow>
          (case obj_categories obj of
             None \<Rightarrow> (obj, [], ReturnBool False)
           | Some cs \<Rightarrow>
               if c \<in> set cs then
                 (obj\<lparr>obj_categories := Some (removeAll c cs)\<rparr>,
                  [OnCategoryChanged Delete c],
                  (case key of
                     CategoryId i \<Rightarrow> ReturnCategory c
                   | CategoryObj c' \<Rightarrow> ReturnBool True))
               else (obj, [], ReturnBool False)))"

subsection \<open>Reading properties\<close>

text \<open>The inner \<open>while\<close> of \<open>_find\<close>: one category and its \<open>basedOn\<close> chain.\<close>

fun find_chain :: "'v env \<Rightarrow> graph \<Rightarrow> property \<Rightarrow> category \<Rightarrow> 'v metadata option" where
  "find_chain E g p (Category r i b) =
     (let metadata = cat_getMetadata E (Category r i b) g in
      if hasOwn metadata p then Some metadata
      else (case b of None \<Rightarrow> None | Some c \<Rightarrow> find_chain E g p c))"

text \<open>The outer \<open>for\<close> of \<open>_find\<close> over the categories of the object.\<close>

fun find_loop :: "'v env \<Rightarrow> graph \<Rightarrow> property \<Rightarrow> category list \<Rightarrow> 'v metadata option" where
  "find_loop E g p [] = None"
| "find_loop E g p (c # cs) =
     (case find_chain E g p c of
        Some metadata \<Rightarrow> Some metadata
      | None \<Rightarrow> find_loop E g p cs)"

definition GraphObject_find ::
  "'v env \<Rightarrow> 'v graph_object \<Rightarrow> property \<Rightarrow> 'v metadata option" where
  "GraphObject_find E obj p =
     (case obj_categories obj of
        None \<Rightarrow> None
      | Some cs \<Rightarrow>
          (case obj_owner obj of
             None \<Rightarrow> None
           | Some g \<Rightarrow> find_loop E g p cs))"

definition GraphObject_hasOwn :: "'v graph_object \<Rightarrow> property_key \<Rightarrow> bool" where
  "GraphObject_hasOwn obj key =
     (case resolve_property obj key of
        None \<Rightarrow> False
      | Some p \<Rightarrow> (case obj_properties obj of None \<Rightarrow> False | Some m \<Rightarrow> Map_has m p))"

definition GraphObject_has :: "'v env \<Rightarrow> 'v graph_object \<Rightarrow> property_key \<Rightarrow> bool" where
  "GraphObject_has E obj key =
     (case resolve_property obj key of
        None \<Rightarrow> False
      | Some p \<Rightarrow> GraphObject_hasOwn obj (PropertyObj p) \<or> GraphObject_find E obj p \<noteq> None)"

definition GraphObject_get :: "'v env \<Rightarrow> 'v graph_object \<Rightarrow> property_key \<Rightarrow> 'v jsval" where
  "GraphObject_get E obj key =
     (case resolve_property obj key of
        None \<Rightarrow> Undefined
      | Some p \<Rightarrow>
          (let value = (case obj_properties obj of None \<Rightarrow> Undefined | Some m \<Rightarrow> Map_get m p);
               value = (if value = Undefined
                        then (case GraphObject_find E obj p of
                                None \<Rightarrow> Undefined
                              | Some metadata \<Rightarrow> metadata_get metadata p)
                        else value)
           in case obj_owner obj of
                Some g \<Rightarrow>
                  if value = Undefined then defaultValue (prop_getMetadata E p g) else value
              | None \<Rightarrow> value))"

subsection \<open>Writing properties\<close>

definition GraphObject_delete ::
  "'v env \<Rightarrow> 'v graph_object \<Rightarrow> property_key \<Rightarrow> 'v graph_object \<times> event list \<times> bool" where
  "GraphObject_delete E obj key =
     (case resolve_property obj key of
        None \<Rightarrow> (obj, [], False)
      | Some p \<Rightarrow>
          (case obj_properties obj of
             None \<Rightarrow> (obj, [], False)
           | Some m \<Rightarrow>
               if \<not> Map_has m p then (obj, [], False)
               else if \<not> isRemovable (resolve_metadata E obj p) then (obj, [], False)
               else (obj\<lparr>obj_properties := Some (Map_delete m p)\<rparr>,
                     [OnPropertyChanged (prop_id p)], True)))"

definition GraphObject_set ::
  "'v env \<Rightarrow> 'v graph_object \<Rightarrow> property_key \<Rightarrow> 'v jsval \<Rightarrow> 'v graph_object \<times> event list" where
  "GraphObject_set E obj key value =
     (if value = Undefined then
        (case GraphObject_delete E obj key of (obj', evs, r) \<Rightarrow> (obj', evs))
      else
        (case resolve_property obj key of
           None \<Rightarrow> (obj, [])
         | Some p \<Rightarrow>
             (let m = (case obj_properties obj of None \<Rightarrow> [] | Some m \<Rightarrow> m);
                  obj1 = obj\<lparr>obj_properties := Some m\<rparr>;
                  ownValue = Map_get m p
              in if strict_eq value ownValue then (obj1, [])
                 else
                   (let metadata = resolve_metadata E obj p
                    in if ownValue \<noteq> Undefined \<and> isImmutable metadata then (obj1, [])
                       else if canValidate metadata \<and> \<not> validate metadata value then (obj1, [])
                       else (obj1\<lparr>obj_properties := Some (Map_set m p value)\<rparr>,
                             [OnPropertyChanged (prop_id p)])))))"

subsection \<open>Copying between objects\<close>

text \<open>The loop of \<open>copyCategories\<close>; the state is the set, the events raised so far and
  \<open>changed\<close>. The metadata import it asks of the owner changes no graph object.\<close>

fun copyCategories_loop ::
  "category list \<Rightarrow> category list \<times> event list \<times> bool \<Rightarrow> category list \<times> event list \<times> bool" where
  "copyCategories_loop [] st = st"
| "copyCategories_loop (c # rest) (cs, evs, changed) =
     (if c \<in> set cs then copyCategories_loop rest (cs, evs, changed)
      else copyCategories_loop rest (cs @ [c], evs @ [OnCategoryChanged Add c], True))"

definition GraphObject_copyCategories ::
  "'v graph_object \<Rightarrow> 'v graph_object \<Rightarrow> 'v graph_object \<times> event list \<times> bool" where
  "GraphObject_copyCategories obj other =
     (case obj_categories other of
        None \<Rightarrow> (obj, [], False)
      | Some ocs \<Rightarrow>
          if ocs = [] then (obj, [], False)
          else
            (let cs = (case obj_categories obj of None \<Rightarrow> [] | Some cs \<Rightarrow> cs)
             in case copyCategories_loop ocs (cs, [], False) of
                  (cs', evs, changed) \<Rightarrow> (obj\<lparr>obj_categories := Some cs'\<rparr>, evs, changed)))"

text \<open>\<open>this._owner?._importMetadata(other._owner, property)\<close>\<close>

definition import_step ::
  "'v env \<Rightarrow> 'v graph_object \<Rightarrow> 'v graph_object \<Rightarrow> property \<Rightarrow> 'v metadata option" where
  "import_step E obj other p =
     (case obj_owner obj of
        None \<Rightarrow> None
      | Some g \<Rightarrow> importMetadata E g (obj_owner other) p)"

text \<open>The three \<open>continue\<close> tests of \<open>copyProperties\<close> inside \<open>if (metadata)\<close>.\<close>

definition copy_skipped :: "'v metadata option \<Rightarrow> 'v jsval \<Rightarrow> 'v jsval \<Rightarrow> bool" where
  "copy_skipped metadata ownValue value =
     (case metadata of
        None \<Rightarrow> False
      | Some md \<Rightarrow>
          if \<not> isSharable md then True
          else if isImmutable md \<and> ownValue \<noteq> Undefined then True
          else if canValidate md \<and> \<not> validate md value then True
          else False)"

fun copyProperties_loop ::
  "(property \<Rightarrow> 'v metadata option) \<Rightarrow> (property \<times> 'v jsval) list \<Rightarrow>
   (property \<times> 'v jsval) list \<times> event list \<times> bool \<Rightarrow>
   (property \<times> 'v jsval) list \<times> event list \<times> bool" where
  "copyProperties_loop imp [] st = st"
| "copyProperties_loop imp ((p, value) # rest) (m, evs, changed) =
     (let ownValue = Map_get m p
      in if strict_eq ownValue value then copyProperties_loop imp rest (m, evs, changed)
         else if copy_skipped (imp p) ownValue value
         then copyProperties_loop imp rest (m, evs, changed)
         else copyProperties_loop imp rest
                (Map_set m p value, evs @ [OnPropertyChanged (prop_id p)], True))"

definition GraphObject_copyProperties ::
  "'v env \<Rightarrow> 'v graph_object \<Rightarrow> 'v graph_object \<Rightarrow> 'v graph_object \<times> event list \<times> bool" where
  "GraphObject_copyProperties E obj other =
     (case obj_properties other of
        None \<Rightarrow> (obj, [], False)
      | Some om \<Rightarrow>
          if om = [] then (obj, [], False)
          else
            (let m = (case obj_properties obj of None \<Rightarrow> [] | Some m \<Rightarrow> m)
             in case copyProperties_loop (import_step E obj other) om (m, [], False) of
                  (m', evs, changed) \<Rightarrow> (obj\<lparr>obj_properties := Some m'\<rparr>, evs, changed)))"

definition GraphObject_setOwner :: "'v graph_object \<Rightarrow> graph option \<Rightarrow> 'v graph_object" where
  "GraphObject_setOwner obj g =
     (if g \<noteq> None \<and> obj_owner obj = None then obj\<lparr>obj_owner := g\<rparr> else obj)"

definition GraphObject_mergeFrom ::
  "'v env \<Rightarrow> 'v graph_object \<Rightarrow> 'v graph_object \<Rightarrow> 'v graph_object \<times> event list \<times> bool" where
  "GraphObject_mergeFrom E obj other =
     (case GraphObject_copyProperties E obj other of
        (obj1, evs1, changed1) \<Rightarrow>
          (case GraphObject_copyCategories obj1 other of
             (obj2, evs2, changed2) \<Rightarrow> (obj2, evs1 @ evs2, changed1 \<or> changed2)))"

section \<open>Sequences of operations\<close>

text \<open>The mutating operations of a graph object, with their arguments.\<close>

datatype 'v operation =
  OpAddCategory category
| OpDeleteCategory category_key
| OpSet property_key "'v jsval"
| OpDelete property_key
| OpCopyCategories "'v graph_object"
| OpCopyProperties "'v graph_object"
| OpSetOwner "graph option"
| OpMergeFrom "'v graph_object"

fun perform :: "'v env \<Rightarrow> 'v graph_object \<Rightarrow> 'v operation \<Rightarrow> 'v graph_object" where
  "perform E obj (OpAddCategory c) = fst (GraphObject_addCategory obj c)"
| "perform E obj (OpDeleteCategory key) = fst (GraphObject_deleteCategory obj key)"
| "perform E obj (OpSet key value) = fst (GraphObject_set E obj key value)"
| "perform E obj (OpDelete key) = fst (GraphObject_delete E obj key)"
| "perform E obj (OpCopyCategories other) = fst (GraphObject_copyCategories obj other)"
| "perform E obj (OpCopyProperties other) = fst (GraphObject_copyProperties E obj other)"
| "perform E obj (OpSetOwner g) = GraphObject_setOwner obj g"
| "perform E obj (OpMergeFrom other) = fst (GraphObject_mergeFrom E obj other)"

fun run :: "'v env \<Rightarrow> 'v graph_object \<Rightarrow> 'v operation list \<Rightarrow> 'v graph_object" where
  "run E obj [] = obj"
| "run E obj (op # ops) = run E (perform E obj op) ops"

text \<open>The other graph object an operation reads, if it reads one.\<close>

fun operand :: "'v operation \<Rightarrow> 'v graph_object option" where
  "operand (OpCopyCategories other) = Some other"
| "operand (OpCopyProperties other) = Some other"
| "operand (OpMergeFrom other) = Some other"
| "operand op = None"

text \<open>
  The states a graph object can be in: the state the constructor leaves, and the state
  after any operation on a reachable state whose operand, if any, is reachable as well.
\<close>

inductive reachable :: "'v env \<Rightarrow> 'v graph_object \<Rightarrow> bool" for E :: "'v env" where
  constructed: "reachable E (GraphObject_new g category)"
| unary: "reachable E obj \<Longrightarrow> operand op = None \<Longrightarrow> reachable E (perform E obj op)"
| binary: "reachable E obj \<Longrightarrow> operand op = Some other \<Longrightarrow> reachable E other \<Longrightarrow>
     reachable E (perform E obj op)"

text \<open>No entry of the property map holds the unset sentinel.\<close>

definition no_unset :: "'v graph_object \<Rightarrow> bool" where
  "no_unset obj = (Undefined \<notin> snd ` set (entries obj))"

text \<open>The state of an object as its readers see it: owner, categories, entries.\<close>

definition same_state :: "'v graph_object \<Rightarrow> 'v graph_object \<Rightarrow> bool" where
  "same_state obj obj' =
     (obj_owner obj' = obj_owner obj \<and> categories obj' = categories obj \<and>
      entries obj' = entries obj)"

section \<open>The resolution order of get, as the specification words it\<close>

text \<open>A category followed by its ancestors.\<close>

fun chain :: "category \<Rightarrow> category list" where
  "chain (Category r i None) = [Category r i None]"
| "chain (Category r i (Some b)) = Category r i (Some b) # chain b"

text \<open>The first category, searching the categories of the object in order and each one
  up its chain, whose metadata for the owner of the object owns the property.\<close>

definition owning_category ::
  "'v env \<Rightarrow> 'v graph_object \<Rightarrow> property \<Rightarrow> (category \<times> graph) option" where
  "owning_category E obj p =
     (case obj_owner obj of
        None \<Rightarrow> None
      | Some g \<Rightarrow>
          map_option (\<lambda>c. (c, g))
            (find (\<lambda>c. hasOwn (cat_getMetadata E c g) p) (concat (map chain (categories obj)))))"

text \<open>The value the owning category's metadata holds for the property; no value when no
  category owns it.\<close>

definition category_value :: "'v env \<Rightarrow> 'v graph_object \<Rightarrow> property \<Rightarrow> 'v jsval" where
  "category_value E obj p =
     (case owning_category E obj p of
        Some (c, g) \<Rightarrow> metadata_get (cat_getMetadata E c g) p
      | None \<Rightarrow> Undefined)"

text \<open>The three steps in order: (1) the stored value if one is present; (2) the value of
  the owning category's metadata; (3) if still unresolved and the object has an owner,
  the default value of the property's metadata for that owner; no value if nothing
  resolves.\<close>

definition get_spec :: "'v env \<Rightarrow> 'v graph_object \<Rightarrow> property \<Rightarrow> 'v jsval" where
  "get_spec E obj p =
     (case map_of (entries obj) p of
        Some v \<Rightarrow> v
      | None \<Rightarrow>
          if category_value E obj p \<noteq> Undefined then category_value E obj p
          else
            (case obj_owner obj of
               Some g \<Rightarrow> defaultValue (prop_getMetadata E p g)
             | None \<Rightarrow> Undefined))"

section \<open>The pairs copyProperties writes, as the specification words it\<close>

text \<open>A pair of the source is written when its value differs from the destination's
  (is not \<open>===\<close> to it: another value, or \<open>NaN\<close>) and the imported metadata, if
  there is one, is sharable, is not immutable with a value already present, and has no
  validator that rejects the value.\<close>

definition copied_pairs ::
  "'v env \<Rightarrow> 'v graph_object \<Rightarrow> 'v graph_object \<Rightarrow> (property \<times> 'v jsval) list" where
  "copied_pairs E obj other =
     filter
       (\<lambda>(p, v).
          \<not> strict_eq (Map_get (entries obj) p) v \<and>
          (case import_step E obj other p of
             None \<Rightarrow> True
           | Some md \<Rightarrow>
               isSharable md \<and>
               \<not> (isImmutable md \<and> Map_get (entries obj) p \<noteq> Undefined) \<and>
               \<not> (canValidate md \<and> \<not> validate md v)))
       (entries other)"

text \<open>The condition under which set refuses a value.\<close>

definition set_rejected :: "'v env \<Rightarrow> 'v graph_object \<Rightarrow> property \<Rightarrow> 'v jsval \<Rightarrow> bool" where
  "set_rejected E obj p v =
     ((Map_get (entries obj) p \<noteq> Undefined \<and> isImmutable (resolve_metadata E obj p)) \<or>
      (canValidate (resolve_metadata E obj p) \<and> \<not> validate (resolve_metadata E obj p) v))"

section \<open>Example schemas, properties and objects\<close>

definition P0 :: property where
  "P0 = \<lparr>prop_ref = 0, prop_id = ''p''\<rparr>"

text \<open>Metadata with default 0: removable, mutable, sharable, no validator.\<close>

definition md0 :: "int metadata" where
  "md0 = \<lparr>defaultValue = Val 0, isImmutable = False, isRemovable = True, isSharable = True,
          canValidate = False, validate = (\<lambda>v. True), hasOwn = (\<lambda>p. False),
          metadata_get = (\<lambda>p. Undefined)\<rparr>"

definition E0 :: "int env" where
  "E0 = \<lparr>prop_getMetadata = (\<lambda>p g. md0), prop_createDefaultMetadata = (\<lambda>p. md0),
         cat_getMetadata = (\<lambda>c g. md0), importMetadata = (\<lambda>g src p. Some md0)\<rparr>"

text \<open>The same with the property immutable.\<close>

definition md_immutable :: "int metadata" where
  "md_immutable = md0\<lparr>isImmutable := True\<rparr>"

definition E_immutable :: "int env" where
  "E_immutable =
     \<lparr>prop_getMetadata = (\<lambda>p g. md_immutable), prop_createDefaultMetadata = (\<lambda>p. md_immutable),
      cat_getMetadata = (\<lambda>c g. md0), importMetadata = (\<lambda>g src p. Some md_immutable)\<rparr>"

text \<open>Category metadata that owns \<open>P0\<close> with value 7, for category B only.\<close>

definition catB :: category where
  "catB = Category 2 ''B'' None"

definition catA :: category where
  "catA = Category 1 ''A'' (Some catB)"

definition md_owning :: "int metadata" where
  "md_owning = md0\<lparr>hasOwn := (\<lambda>p. p = P0), metadata_get := (\<lambda>p. if p = P0 then Val 7 else Undefined)\<rparr>"

definition E_category :: "int env" where
  "E_category =
     \<lparr>prop_getMetadata = (\<lambda>p g. md0), prop_createDefaultMetadata = (\<lambda>p. md0),
      cat_getMetadata = (\<lambda>c g. if c = catB then md_owning else md0),
      importMetadata = (\<lambda>g src p. Some md0)\<rparr>"

text \<open>A root schema that defines category id \<open>a\<close> itself and has a child defining it too.\<close>

definition cat_root :: category where
  "cat_root = Category 10 ''a'' None"

definition cat_child :: category where
  "cat_child = Category 11 ''a'' None"

definition S_child :: schema where
  "S_child = GraphSchema ''child'' None (Some (\<lambda>i. if i = ''a'' then Some cat_child else None)) None"

definition S_root :: schema where
  "S_root =
     GraphSchema ''root'' (Some [S_child])
       (Some (\<lambda>i. if i = ''a'' then Some cat_root else None)) None"

definition G1 :: graph where
  "G1 = \<lparr>graph_ref = 1, graph_schema = S_root\<rparr>"

definition G2 :: graph where
  "G2 = \<lparr>graph_ref = 2, graph_schema = S_root\<rparr>"

text \<open>An object without owner; the same after \<open>set(P0, 5)\<close>.\<close>

definition O_new :: "int graph_object" where
  "O_new = GraphObject_new None None"

definition O_five :: "int graph_object" where
  "O_five = fst (GraphObject_set E0 O_new (PropertyObj P0) (Val 5))"

text \<open>The object without owner after \<open>set(P0, NaN)\<close>.\<close>

definition O_nan :: "int graph_object" where
  "O_nan = fst (GraphObject_set E0 O_new (PropertyObj P0) NaN)"

text \<open>Category metadata that owns \<open>P0\<close> and holds no value for it.\<close>

definition md_owning_unset :: "int metadata" where
  "md_owning_unset = md0\<lparr>hasOwn := (\<lambda>p. p = P0)\<rparr>"

definition E_category_unset :: "int env" where
  "E_category_unset =
     \<lparr>prop_getMetadata = (\<lambda>p g. md0), prop_createDefaultMetadata = (\<lambda>p. md0),
      cat_getMetadata = (\<lambda>c g. if c = catB then md_owning_unset else md0),
      importMetadata = (\<lambda>g src p. Some md0)\<rparr>"

text \<open>The objects of the copy scenario: X of graph G1 holds 3, Y of graph G2 holds 9.\<close>

definition X_three :: "int graph_object" where
  "X_three = \<lparr>obj_owner = Some G1, obj_categories = None, obj_properties = Some [(P0, Val 3)]\<rparr>"

definition Y_nine :: "int graph_object" where
  "Y_nine = \<lparr>obj_owner = Some G2, obj_categories = None, obj_properties = Some [(P0, Val 9)]\<rparr>"

text \<open>An object of graph G1 with category A only.\<close>

definition O_catA :: "int graph_object" where
  "O_catA = GraphObject_new (Some G1) (Some catA)"

section \<open>Strict equality\<close>

lemma strict_eq_Undefined [simp]:
  "strict_eq v Undefined = (v = Undefined)" "strict_eq Undefined v = (v = Undefined)"
  by (auto simp add: strict_eq_def)

lemma strict_eq_Val [simp]: "strict_eq (Val a) (Val b) = (a = b)"
  by (simp add: strict_eq_def)

lemma strict_eq_NaN [simp]: "strict_eq NaN v = False" "strict_eq v NaN = False"
  by (auto simp add: strict_eq_def)

section \<open>Schema lookup\<close>

lemma findCategory_loop_append:
  "findCategory_loop (xs @ ys) i =
     (case findCategory_loop xs i of Some c \<Rightarrow> Some c | None \<Rightarrow> findCategory_loop ys i)"
  by (induction xs) (auto split: option.splits)

lemma findCategory_loop_concat:
  "findCategory_loop (concat xss) i = first_some (map (\<lambda>xs. findCategory_loop xs i) xss)"
proof (induction xss)
  case Nil
  show ?case by simp
next
  case (Cons xs xss)
  then show ?case
    by (cases "findCategory_loop xs i") (simp_all add: findCategory_loop_append)
qed

lemma allSchemas_unfold:
  "GraphSchema_allSchemas s = s # concat (map GraphSchema_allSchemas (child_schemas s))"
  by (cases s; cases "schema_schemas s") (auto simp: child_schemas_def)

lemma findCategory_loop_Cons:
  "findCategory_loop (s # ss) i =
     (case own_category s i of Some c \<Rightarrow> Some c | None \<Rightarrow> findCategory_loop ss i)"
  by (simp add: own_category_def split: option.splits)

lemma findCategory_unfold:
  "GraphSchema_findCategory s i =
     (case own_category s i of
        Some c \<Rightarrow> Some c
      | None \<Rightarrow> first_some (map (\<lambda>child. GraphSchema_findCategory child i) (child_schemas s)))"
proof -
  have "GraphSchema_findCategory s i =
      findCategory_loop (s # concat (map GraphSchema_allSchemas (child_schemas s))) i"
    unfolding GraphSchema_findCategory_def by (subst allSchemas_unfold) (rule refl)
  also have "\<dots> = (case own_category s i of Some c \<Rightarrow> Some c
      | None \<Rightarrow> findCategory_loop (concat (map GraphSchema_allSchemas (child_schemas s))) i)"
    by (rule findCategory_loop_Cons)
  also have "findCategory_loop (concat (map GraphSchema_allSchemas (child_schemas s))) i =
      first_some (map (\<lambda>child. GraphSchema_findCategory child i) (child_schemas s))"
    by (simp add: findCategory_loop_concat GraphSchema_findCategory_def comp_def)
  finally show ?thesis .
qed

lemma findCategory_loop_first:
  "findCategory_loop ss i = Some c \<Longrightarrow>
     \<exists>pre t post. ss = pre @ t # post \<and> own_category t i = Some c \<and>
       (\<forall>u \<in> set pre. own_category u i = None)"
proof (induction ss)
  case Nil
  then show ?case by simp
next
  case (Cons s ss)
  show ?case
  proof (cases "own_category s i")
    case (Some d)
    with Cons.prems have "d = c" by (simp add: findCategory_loop_Cons del: findCategory_loop.simps(2))
    with Some have "s # ss = [] @ s # ss \<and> own_category s i = Some c \<and>
       (\<forall>u \<in> set []. own_category u i = None)" by simp
    then show ?thesis by blast
  next
    case None
    with Cons.prems have "findCategory_loop ss i = Some c"
      by (simp add: findCategory_loop_Cons del: findCategory_loop.simps(2))
    from Cons.IH [OF this] obtain pre t post where
      *: "ss = pre @ t # post" "own_category t i = Some c" "\<forall>u \<in> set pre. own_category u i = None"
      by blast
    with None have "s # ss = (s # pre) @ t # post \<and> own_category t i = Some c \<and>
       (\<forall>u \<in> set (s # pre). own_category u i = None)" by simp
    then show ?thesis by blast
  qed
qed

lemma findCategory_loop_None:
  "(findCategory_loop ss i = None) = (\<forall>t \<in> set ss. own_category t i = None)"
  by (induction ss) (auto simp: findCategory_loop_Cons simp del: findCategory_loop.simps(2) split: option.splits)

text \<open>
  C6. \<open>findCategory\<close> looks at the schema itself before any descendant and at the
  descendants depth-first in child-registration order: its result is the schema's own
  category for the id if it has one, and otherwise the first result among the searches
  of the children, each child searched as a whole before the next one. The result is the
  first match of the traversal \<open>allSchemas\<close>; a category the schema defines itself
  shadows those of its descendants; and the result is the not-found value exactly when
  no schema of the traversal defines the id.
\<close>

theorem findCategory_self_first:
  "GraphSchema_findCategory s i =
     (case own_category s i of
        Some c \<Rightarrow> Some c
      | None \<Rightarrow> first_some (map (\<lambda>child. GraphSchema_findCategory child i) (child_schemas s)))
   \<and> (\<forall>c. GraphSchema_findCategory s i = Some c \<longrightarrow>
        (\<exists>pre t post. GraphSchema_allSchemas s = pre @ t # post \<and> own_category t i = Some c \<and>
           (\<forall>u \<in> set pre. own_category u i = None)))
   \<and> (\<forall>c. own_category s i = Some c \<longrightarrow> GraphSchema_findCategory s i = Some c)
   \<and> ((GraphSchema_findCategory s i = None) =
        (\<forall>t \<in> set (GraphSchema_allSchemas s). own_category t i = None))"
proof (intro conjI allI impI)
  show "GraphSchema_findCategory s i =
     (case own_category s i of
        Some c \<Rightarrow> Some c
      | None \<Rightarrow> first_some (map (\<lambda>child. GraphSchema_findCategory child i) (child_schemas s)))"
    by (rule findCategory_unfold)
next
  fix c assume "GraphSchema_findCategory s i = Some c"
  then show "\<exists>pre t post. GraphSchema_allSchemas s = pre @ t # post \<and> own_category t i = Some c \<and>
           (\<forall>u \<in> set pre. own_category u i = None)"
    unfolding GraphSchema_findCategory_def by (rule findCategory_loop_first)
next
  fix c assume "own_category s i = Some c"
  then show "GraphSchema_findCategory s i = Some c"
    by (subst findCategory_unfold) simp
next
  show "(GraphSchema_findCategory s i = None) =
        (\<forall>t \<in> set (GraphSchema_allSchemas s). own_category t i = None)"
    unfolding GraphSchema_findCategory_def by (rule findCategory_loop_None)
qed

theorem findCategory_self_first_witness:
  "own_category S_root ''a'' = Some cat_root \<and>
   S_child \<in> set (child_schemas S_root) \<and>
   own_category S_child ''a'' = Some cat_child \<and>
   cat_child \<noteq> cat_root \<and>
   GraphSchema_findCategory S_root ''a'' = Some cat_root \<and>
   GraphSchema_findCategory S_root ''b'' = None"
proof -
  have a: "own_category S_root ''a'' = Some cat_root"
    by (simp add: own_category_def S_root_def)
  have b: "\<forall>t \<in> set (GraphSchema_allSchemas S_root). own_category t ''b'' = None"
    by (simp add: own_category_def S_root_def S_child_def)
  from findCategory_self_first [of S_root "''a''"] a
  have 1: "GraphSchema_findCategory S_root ''a'' = Some cat_root" by blast
  from findCategory_self_first [of S_root "''b''"] b
  have 2: "GraphSchema_findCategory S_root ''b'' = None" by blast
  show ?thesis using a 1 2
    by (simp add: own_category_def S_child_def S_root_def child_schemas_def cat_child_def cat_root_def)
qed

section \<open>The Map operations and the accessors\<close>

lemma map_of_Map_set: "map_of (Map_set m k v) = (map_of m)(k \<mapsto> v)"
  by (induction m k v rule: Map_set.induct) auto

lemma Map_get_Map_set: "Map_get (Map_set m k v) q = (if q = k then v else Map_get m q)"
  by (simp add: Map_get_def map_of_Map_set)

lemma map_of_Map_delete: "map_of (Map_delete m k) = (map_of m)(k := None)"
  by (induction m) (auto simp: Map_delete_def)

lemma Map_has_Map_delete: "Map_has (Map_delete m k) q = (q \<noteq> k \<and> Map_has m q)"
  by (simp add: Map_has_def map_of_Map_delete)

lemma set_Map_set: "set (Map_set m k v) \<subseteq> insert (k, v) (set m)"
  by (induction m k v rule: Map_set.induct) auto

lemma set_Map_delete: "set (Map_delete m k) \<subseteq> set m"
  by (auto simp: Map_delete_def)

lemma keys_Map_set:
  "map fst (Map_set m k v) = (if k \<in> set (map fst m) then map fst m else map fst m @ [k])"
  by (induction m k v rule: Map_set.induct) auto

lemma distinct_Map_set: "distinct (map fst m) \<Longrightarrow> distinct (map fst (Map_set m k v))"
  by (simp add: keys_Map_set)

lemma distinct_Map_delete: "distinct (map fst m) \<Longrightarrow> distinct (map fst (Map_delete m k))"
  by (simp add: Map_delete_def distinct_map_filter)

lemma entries_Some: "obj_properties obj = Some m \<Longrightarrow> entries obj = m"
  by (simp add: entries_def)

lemma entries_None: "obj_properties obj = None \<Longrightarrow> entries obj = []"
  by (simp add: entries_def)

lemma entries_update [simp]: "entries (obj\<lparr>obj_properties := Some m\<rparr>) = m"
  by (simp add: entries_def)

lemma categories_update [simp]: "categories (obj\<lparr>obj_properties := x\<rparr>) = categories obj"
  by (simp add: categories_def)

lemma resolve_property_obj [simp]: "resolve_property obj (PropertyObj p) = Some p"
  by (simp add: resolve_property_def)

lemma resolve_metadata_update [simp]:
  "resolve_metadata E (obj\<lparr>obj_properties := x\<rparr>) p = resolve_metadata E obj p"
  by (simp add: resolve_metadata_def)

lemma no_unsetD: "no_unset obj \<Longrightarrow> (p, v) \<in> set (entries obj) \<Longrightarrow> v \<noteq> Undefined"
  by (force simp: no_unset_def)

lemma no_unsetI: "(\<And>p v. (p, v) \<in> set (entries obj) \<Longrightarrow> v \<noteq> Undefined) \<Longrightarrow> no_unset obj"
  by (force simp: no_unset_def)

section \<open>delete\<close>

text \<open>
  C5. \<open>delete(P)\<close> returns false and leaves the object as it is, the stored value
  included, whenever the object stores no value for P or the resolved metadata of P is
  not removable. Otherwise it removes the entry of P and no other, raises one
  property-changed event with the id of P, and returns true.
\<close>

theorem delete_returns:
  "(\<not> Map_has (entries obj) p \<or> \<not> isRemovable (resolve_metadata E obj p) \<longrightarrow>
      GraphObject_delete E obj (PropertyObj p) = (obj, [], False))
   \<and> (Map_has (entries obj) p \<and> isRemovable (resolve_metadata E obj p) \<longrightarrow>
      GraphObject_delete E obj (PropertyObj p) =
        (obj\<lparr>obj_properties := Some (Map_delete (entries obj) p)\<rparr>,
         [OnPropertyChanged (prop_id p)], True)
      \<and> \<not> Map_has (Map_delete (entries obj) p) p
      \<and> (\<forall>q. q \<noteq> p \<longrightarrow> map_of (Map_delete (entries obj) p) q = map_of (entries obj) q))"
proof (cases "obj_properties obj")
  case None
  then show ?thesis
    by (simp add: GraphObject_delete_def entries_def Map_has_def)
next
  case (Some m)
  then show ?thesis
    by (simp add: GraphObject_delete_def entries_def Map_has_Map_delete map_of_Map_delete)
qed

theorem delete_returns_witness:
  "Map_has (entries O_five) P0 \<and> isRemovable (resolve_metadata E0 O_five P0) \<and>
   snd (snd (GraphObject_delete E0 O_five (PropertyObj P0))) = True \<and>
   entries (fst (GraphObject_delete E0 O_five (PropertyObj P0))) = [] \<and>
   \<not> Map_has (entries O_new) P0 \<and>
   GraphObject_delete E0 O_new (PropertyObj P0) = (O_new, [], False)"
proof -
  have five: "entries O_five = [(P0, Val 5)]"
    by (simp add: O_five_def O_new_def GraphObject_new_def GraphObject_set_def
        resolve_metadata_def E0_def md0_def Map_get_def entries_def)
  have a: "Map_has (entries O_five) P0" by (simp add: five Map_has_def)
  have b: "isRemovable (resolve_metadata E0 O_five P0)"
    by (simp add: resolve_metadata_def E0_def md0_def split: option.splits)
  have c: "\<not> Map_has (entries O_new) P0"
    by (simp add: O_new_def GraphObject_new_def entries_def Map_has_def)
  from delete_returns [of O_five P0 E0] a b
  have 1: "GraphObject_delete E0 O_five (PropertyObj P0) =
        (O_five\<lparr>obj_properties := Some (Map_delete (entries O_five) P0)\<rparr>,
         [OnPropertyChanged (prop_id P0)], True)" by blast
  from delete_returns [of O_new P0 E0] c
  have 2: "GraphObject_delete E0 O_new (PropertyObj P0) = (O_new, [], False)" by blast
  show ?thesis using a b c 2 by (simp add: 1 five Map_delete_def)
qed

section \<open>set with the value already stored\<close>

text \<open>
  C10, as the code has it. When the object already stores exactly \<open>v\<close> for P and \<open>v\<close>
  is not \<open>NaN\<close>, so that \<open>v === v\<close> holds, \<open>set(P, v)\<close> returns the object unchanged
  and raises no event, whatever the metadata says: the environment \<open>E\<close> is arbitrary, so
  the metadata may be immutable or have a validator that rejects \<open>v\<close>. (A stored value
  is never the unset sentinel, which is the hypothesis \<open>no_unset\<close>.)
\<close>

theorem set_same_value:
  "v \<noteq> NaN \<Longrightarrow> no_unset obj \<Longrightarrow> map_of (entries obj) p = Some v \<Longrightarrow>
     GraphObject_set E obj (PropertyObj p) v = (obj, [])"
proof -
  assume nan: "v \<noteq> NaN" and inv: "no_unset obj" and stored: "map_of (entries obj) p = Some v"
  from stored have "(p, v) \<in> set (entries obj)" by (rule map_of_SomeD)
  with inv have v: "v \<noteq> Undefined" by (rule no_unsetD)
  from stored obtain m where m: "obj_properties obj = Some m"
    by (cases "obj_properties obj") (simp_all add: entries_def)
  then have same: "obj\<lparr>obj_properties := Some m\<rparr> = obj" by (cases obj) simp
  from m stored have "Map_get m p = v" by (simp add: entries_def Map_get_def)
  with v nan m same show ?thesis by (simp add: GraphObject_set_def strict_eq_def)
qed

theorem set_same_value_witness:
  "Val 9 \<noteq> (NaN :: int jsval) \<and>
   no_unset Y_nine \<and> map_of (entries Y_nine) P0 = Some (Val 9) \<and>
   isImmutable (resolve_metadata E_immutable Y_nine P0) \<and>
   GraphObject_set E_immutable Y_nine (PropertyObj P0) (Val 9) = (Y_nine, [])"
proof -
  have n: "Val 9 \<noteq> (NaN :: int jsval)" by simp
  have a: "no_unset Y_nine" by (simp add: no_unset_def entries_def Y_nine_def)
  have b: "map_of (entries Y_nine) P0 = Some (Val 9)" by (simp add: entries_def Y_nine_def)
  have c: "isImmutable (resolve_metadata E_immutable Y_nine P0)"
    by (simp add: resolve_metadata_def E_immutable_def md_immutable_def md0_def Y_nine_def)
  show ?thesis using a b c set_same_value [OF n a b, of E_immutable] by simp
qed

lemma O_nan_eq:
  "O_nan = \<lparr>obj_owner = None, obj_categories = None, obj_properties = Some [(P0, NaN)]\<rparr>"
  by (simp add: O_nan_def O_new_def GraphObject_new_def GraphObject_set_def
      resolve_metadata_def E0_def md0_def Map_get_def)

text \<open>C10 as stated does not hold for \<open>NaN\<close>: the object stores exactly \<open>NaN\<close> for P0
  (after \<open>set(P0, NaN)\<close> on a new object), \<open>NaN === NaN\<close> is false, and \<open>set(P0, NaN)\<close>
  goes on to the metadata, writes and raises a property-changed event.\<close>

theorem set_same_value_counterexample:
  "no_unset O_nan \<and> map_of (entries O_nan) P0 = Some NaN \<and>
   GraphObject_set E0 O_nan (PropertyObj P0) NaN = (O_nan, [OnPropertyChanged (prop_id P0)]) \<and>
   GraphObject_set E0 O_nan (PropertyObj P0) NaN \<noteq> (O_nan, [])"
  by (simp add: O_nan_eq no_unset_def entries_def GraphObject_set_def resolve_metadata_def
      E0_def md0_def Map_get_def)

lemma O_new_fields:
  "obj_owner O_new = None" "obj_categories O_new = None" "obj_properties O_new = None"
  by (simp_all add: O_new_def GraphObject_new_def)

lemma O_five_eq:
  "O_five = \<lparr>obj_owner = None, obj_categories = None, obj_properties = Some [(P0, Val 5)]\<rparr>"
  by (simp add: O_five_def O_new_def GraphObject_new_def GraphObject_set_def
      resolve_metadata_def E0_def md0_def Map_get_def)

section \<open>get\<close>

lemma get_without_owner_stored:
  "obj_owner obj = None \<Longrightarrow> GraphObject_get E obj (PropertyObj p) = Map_get (entries obj) p"
  by (cases "obj_properties obj")
     (simp_all add: GraphObject_get_def GraphObject_find_def entries_def Map_get_def
        split: option.splits)

text \<open>
  C1, as the code has it. For an object without owner, \<open>get(P)\<close> returns the object's own
  stored value and the no-value result (\<open>undefined\<close>) when it stores none: the default
  metadata of the property is not consulted. In the scenario (the default metadata of P
  removable and accepting the value, the object new and without owner): \<open>get(P)\<close> is
  \<open>undefined\<close>; after \<open>set(P, x)\<close> the stored value is \<open>x\<close> and \<open>get(P)\<close> returns it;
  \<open>delete(P)\<close> returns true; and \<open>get(P)\<close> is \<open>undefined\<close> again.
\<close>

theorem get_without_owner:
  "(obj_owner obj = None \<longrightarrow>
      GraphObject_get E obj (PropertyObj p) = Map_get (entries obj) p)
   \<and> (isRemovable (prop_createDefaultMetadata E p) \<and>
       \<not> (canValidate (prop_createDefaultMetadata E p) \<and>
          \<not> validate (prop_createDefaultMetadata E p) (Val x)) \<longrightarrow>
      GraphObject_get E (GraphObject_new None None) (PropertyObj p) = Undefined
      \<and> entries (fst (GraphObject_set E (GraphObject_new None None) (PropertyObj p) (Val x))) =
          [(p, Val x)]
      \<and> GraphObject_get E
          (fst (GraphObject_set E (GraphObject_new None None) (PropertyObj p) (Val x)))
          (PropertyObj p) = Val x
      \<and> snd (snd (GraphObject_delete E
          (fst (GraphObject_set E (GraphObject_new None None) (PropertyObj p) (Val x)))
          (PropertyObj p))) = True
      \<and> GraphObject_get E
          (fst (GraphObject_delete E
             (fst (GraphObject_set E (GraphObject_new None None) (PropertyObj p) (Val x)))
             (PropertyObj p)))
          (PropertyObj p) = Undefined)"
proof (intro conjI impI)
  assume "obj_owner obj = None"
  then show "GraphObject_get E obj (PropertyObj p) = Map_get (entries obj) p"
    by (rule get_without_owner_stored)
next
  let ?new = "GraphObject_new None None :: 'a graph_object"
  let ?md = "prop_createDefaultMetadata E p"
  assume ok: "isRemovable ?md \<and> \<not> (canValidate ?md \<and> \<not> validate ?md (Val x))"
  have new: "?new = \<lparr>obj_owner = None, obj_categories = None, obj_properties = None\<rparr>"
    by (simp add: GraphObject_new_def)
  have set5: "GraphObject_set E ?new (PropertyObj p) (Val x) =
      (\<lparr>obj_owner = None, obj_categories = None, obj_properties = Some [(p, Val x)]\<rparr>,
       [OnPropertyChanged (prop_id p)])"
    using ok by (auto simp add: new GraphObject_set_def resolve_metadata_def Map_get_def)
  have del: "GraphObject_delete E
      \<lparr>obj_owner = None, obj_categories = None, obj_properties = Some [(p, Val x)]\<rparr>
      (PropertyObj p) =
      (\<lparr>obj_owner = None, obj_categories = None, obj_properties = Some []\<rparr>,
       [OnPropertyChanged (prop_id p)], True)"
    using ok by (simp add: GraphObject_delete_def resolve_metadata_def Map_has_def Map_delete_def)
  show "GraphObject_get E ?new (PropertyObj p) = Undefined"
    by (simp add: get_without_owner_stored new entries_def Map_get_def)
  show "entries (fst (GraphObject_set E ?new (PropertyObj p) (Val x))) = [(p, Val x)]"
    by (simp add: set5 entries_def)
  show "GraphObject_get E (fst (GraphObject_set E ?new (PropertyObj p) (Val x))) (PropertyObj p) = Val x"
    by (simp add: set5 get_without_owner_stored entries_def Map_get_def)
  show "snd (snd (GraphObject_delete E (fst (GraphObject_set E ?new (PropertyObj p) (Val x)))
          (PropertyObj p))) = True"
    by (simp add: set5 del)
  show "GraphObject_get E
          (fst (GraphObject_delete E (fst (GraphObject_set E ?new (PropertyObj p) (Val x)))
             (PropertyObj p)))
          (PropertyObj p) = Undefined"
    by (simp add: set5 del get_without_owner_stored entries_def Map_get_def)
qed

theorem get_without_owner_witness:
  "obj_owner O_five = None \<and>
   GraphObject_get E0 O_five (PropertyObj P0) = Val 5 \<and>
   defaultValue (prop_createDefaultMetadata E0 P0) = Val 0 \<and>
   isRemovable (prop_createDefaultMetadata E0 P0) \<and>
   \<not> canValidate (prop_createDefaultMetadata E0 P0) \<and>
   GraphObject_get E0 (GraphObject_new None None) (PropertyObj P0) = Undefined \<and>
   GraphObject_get E0
     (fst (GraphObject_delete E0
        (fst (GraphObject_set E0 (GraphObject_new None None) (PropertyObj P0) (Val 5)))
        (PropertyObj P0)))
     (PropertyObj P0) = Undefined"
proof -
  have a: "obj_owner O_five = None" by (simp add: O_five_eq)
  have b: "isRemovable (prop_createDefaultMetadata E0 P0) \<and>
       \<not> (canValidate (prop_createDefaultMetadata E0 P0) \<and>
          \<not> validate (prop_createDefaultMetadata E0 P0) (Val 5))"
    by (simp add: E0_def md0_def)
  have c: "Map_get (entries O_five) P0 = Val 5"
    by (simp add: O_five_eq entries_def Map_get_def)
  from get_without_owner [of O_five E0 P0 5] a c
  have 1: "GraphObject_get E0 O_five (PropertyObj P0) = Val 5" by simp
  from get_without_owner [of O_five E0 P0 5] b
  have 2: "GraphObject_get E0 (GraphObject_new None None) (PropertyObj P0) = Undefined"
    and 3: "GraphObject_get E0
     (fst (GraphObject_delete E0
        (fst (GraphObject_set E0 (GraphObject_new None None) (PropertyObj P0) (Val 5)))
        (PropertyObj P0)))
     (PropertyObj P0) = Undefined" by blast+
  show ?thesis using a 1 2 3 by (simp add: E0_def md0_def)
qed

text \<open>C1 as stated does not hold: the object has no owner and stores nothing for P0, the
  default metadata of P0 has default value 0, and \<open>get\<close> does not return it.\<close>

theorem get_default_counterexample:
  "obj_owner O_new = None \<and> \<not> Map_has (entries O_new) P0 \<and>
   defaultValue (prop_createDefaultMetadata E0 P0) = Val 0 \<and>
   GraphObject_get E0 O_new (PropertyObj P0) \<noteq> defaultValue (prop_createDefaultMetadata E0 P0)"
  by (simp add: O_new_fields entries_def Map_has_def E0_def md0_def GraphObject_get_def
      GraphObject_find_def)

section \<open>What set does with a value\<close>

lemma set_defined:
  "v \<noteq> Undefined \<Longrightarrow>
   GraphObject_set E obj (PropertyObj p) v =
     (if strict_eq v (Map_get (entries obj) p) \<or> set_rejected E obj p v
      then (obj\<lparr>obj_properties := Some (entries obj)\<rparr>, [])
      else (obj\<lparr>obj_properties := Some (Map_set (entries obj) p v)\<rparr>,
            [OnPropertyChanged (prop_id p)]))"
  by (auto simp add: GraphObject_set_def set_rejected_def entries_def Let_def
      split: option.splits)

lemma same_state_allocated: "same_state obj (obj\<lparr>obj_properties := Some (entries obj)\<rparr>)"
  by (simp add: same_state_def)

text \<open>
  C4, as the code has it. For a value \<open>v\<close> other than the unset sentinel: if the object
  already stores a value for P and the resolved metadata is immutable, or the metadata
  has a validator that rejects \<open>v\<close>, then \<open>set(P, v)\<close> leaves the owner, the categories
  and the entries of the object unchanged and raises no event; it does the same when
  \<open>v\<close> is strictly equal (\<open>===\<close>) to the value already stored, that is, \<open>v\<close> is that
  value and is not \<open>NaN\<close>; in every other case it stores \<open>v\<close> for P and raises exactly
  one property-changed event carrying the id of P.
\<close>

theorem set_effect:
  "v \<noteq> Undefined \<Longrightarrow>
   (set_rejected E obj p v \<or> strict_eq v (Map_get (entries obj) p) \<longrightarrow>
      same_state obj (fst (GraphObject_set E obj (PropertyObj p) v)) \<and>
      snd (GraphObject_set E obj (PropertyObj p) v) = [])
   \<and> (\<not> set_rejected E obj p v \<and> \<not> strict_eq v (Map_get (entries obj) p) \<longrightarrow>
      fst (GraphObject_set E obj (PropertyObj p) v) =
        obj\<lparr>obj_properties := Some (Map_set (entries obj) p v)\<rparr> \<and>
      Map_get (entries (fst (GraphObject_set E obj (PropertyObj p) v))) p = v \<and>
      snd (GraphObject_set E obj (PropertyObj p) v) = [OnPropertyChanged (prop_id p)])"
  by (auto simp add: set_defined same_state_allocated Map_get_Map_set)

theorem set_effect_witness:
  "Val 5 \<noteq> (Undefined :: int jsval) \<and>
   \<not> set_rejected E0 O_new P0 (Val 5) \<and> \<not> strict_eq (Val 5) (Map_get (entries O_new) P0) \<and>
   snd (GraphObject_set E0 O_new (PropertyObj P0) (Val 5)) = [OnPropertyChanged ''p''] \<and>
   Map_get (entries (fst (GraphObject_set E0 O_new (PropertyObj P0) (Val 5)))) P0 = Val 5 \<and>
   set_rejected E_immutable Y_nine P0 (Val 3) \<and>
   same_state Y_nine (fst (GraphObject_set E_immutable Y_nine (PropertyObj P0) (Val 3))) \<and>
   snd (GraphObject_set E_immutable Y_nine (PropertyObj P0) (Val 3)) = [] \<and>
   NaN \<noteq> (Undefined :: int jsval) \<and> Map_get (entries O_nan) P0 = NaN \<and>
   \<not> set_rejected E0 O_nan P0 NaN \<and> \<not> strict_eq NaN (Map_get (entries O_nan) P0) \<and>
   snd (GraphObject_set E0 O_nan (PropertyObj P0) NaN) = [OnPropertyChanged ''p'']"
proof -
  have v: "Val 5 \<noteq> (Undefined :: int jsval)" "Val 3 \<noteq> (Undefined :: int jsval)"
    "NaN \<noteq> (Undefined :: int jsval)" by simp_all
  have n: "Map_get (entries O_nan) P0 = NaN" by (simp add: O_nan_eq entries_def Map_get_def)
  have nr: "\<not> set_rejected E0 O_nan P0 NaN"
    by (simp add: set_rejected_def resolve_metadata_def O_nan_eq E0_def md0_def)
  have ns: "\<not> strict_eq NaN (Map_get (entries O_nan) P0)" by simp
  from set_effect [OF v(3), of E0 O_nan P0] nr ns
  have 5: "snd (GraphObject_set E0 O_nan (PropertyObj P0) NaN) = [OnPropertyChanged (prop_id P0)]"
    by blast
  have a: "\<not> set_rejected E0 O_new P0 (Val 5)"
    by (simp add: set_rejected_def resolve_metadata_def O_new_fields E0_def md0_def entries_def
        Map_get_def)
  have b: "\<not> strict_eq (Val 5) (Map_get (entries O_new) P0)"
    by (simp add: O_new_fields entries_def Map_get_def)
  have c: "set_rejected E_immutable Y_nine P0 (Val 3)"
    by (simp add: set_rejected_def resolve_metadata_def Y_nine_def E_immutable_def
        md_immutable_def md0_def entries_def Map_get_def)
  from set_effect [OF v(1), of E0 O_new P0] a b
  have 1: "snd (GraphObject_set E0 O_new (PropertyObj P0) (Val 5)) = [OnPropertyChanged (prop_id P0)]"
    and 2: "Map_get (entries (fst (GraphObject_set E0 O_new (PropertyObj P0) (Val 5)))) P0 = Val 5"
    by blast+
  from set_effect [OF v(2), of E_immutable Y_nine P0] c
  have 3: "same_state Y_nine (fst (GraphObject_set E_immutable Y_nine (PropertyObj P0) (Val 3)))"
    and 4: "snd (GraphObject_set E_immutable Y_nine (PropertyObj P0) (Val 3)) = []"
    by blast+
  show ?thesis using a b c n nr 1 2 3 4 5 by (simp add: P0_def)
qed

text \<open>C4 as stated does not hold where the value is the one already stored: neither
  reason for rejecting applies, so one property-changed event would be due, and
  \<open>set\<close> raises none.\<close>

theorem set_event_counterexample:
  "Val 5 \<noteq> (Undefined :: int jsval) \<and>
   \<not> (Map_has (entries O_five) P0 \<and> isImmutable (resolve_metadata E0 O_five P0)) \<and>
   \<not> (canValidate (resolve_metadata E0 O_five P0) \<and>
      \<not> validate (resolve_metadata E0 O_five P0) (Val 5)) \<and>
   snd (GraphObject_set E0 O_five (PropertyObj P0) (Val 5)) \<noteq> [OnPropertyChanged (prop_id P0)]"
  by (simp add: O_five_eq resolve_metadata_def E0_def md0_def GraphObject_set_def Map_get_def)

section \<open>The owner\<close>

lemma addCategory_owner: "obj_owner (fst (GraphObject_addCategory obj c)) = obj_owner obj"
  by (simp add: GraphObject_addCategory_def Let_def)

lemma deleteCategory_owner: "obj_owner (fst (GraphObject_deleteCategory obj key)) = obj_owner obj"
  by (simp add: GraphObject_deleteCategory_def split: option.splits)

lemma delete_owner: "obj_owner (fst (GraphObject_delete E obj key)) = obj_owner obj"
  by (simp add: GraphObject_delete_def split: option.splits)

lemma set_unset: "fst (GraphObject_set E obj key Undefined) = fst (GraphObject_delete E obj key)"
  by (cases "GraphObject_delete E obj key") (simp add: GraphObject_set_def)

lemma set_owner: "obj_owner (fst (GraphObject_set E obj key v)) = obj_owner obj"
proof (cases "v = Undefined")
  case True
  then show ?thesis by (simp add: set_unset delete_owner)
next
  case False
  then show ?thesis
    by (cases "resolve_property obj key") (simp_all add: GraphObject_set_def Let_def)
qed

lemma copyCategories_owner:
  "obj_owner (fst (GraphObject_copyCategories obj other)) = obj_owner obj"
proof (cases "obj_categories other")
  case None
  then show ?thesis by (simp add: GraphObject_copyCategories_def)
next
  case (Some ocs)
  obtain cs' evs changed where
    "copyCategories_loop ocs (categories obj, [], False) = (cs', evs, changed)"
    by (cases "copyCategories_loop ocs (categories obj, [], False)") auto
  with Some show ?thesis
    by (simp add: GraphObject_copyCategories_def categories_def)
qed

lemma copyProperties_owner:
  "obj_owner (fst (GraphObject_copyProperties E obj other)) = obj_owner obj"
proof (cases "obj_properties other")
  case None
  then show ?thesis by (simp add: GraphObject_copyProperties_def)
next
  case (Some om)
  obtain m' evs changed where
    "copyProperties_loop (import_step E obj other) om (entries obj, [], False) = (m', evs, changed)"
    by (cases "copyProperties_loop (import_step E obj other) om (entries obj, [], False)") auto
  with Some show ?thesis
    by (simp add: GraphObject_copyProperties_def entries_def)
qed

lemma mergeFrom_owner:
  "obj_owner (fst (GraphObject_mergeFrom E obj other)) = obj_owner obj"
proof -
  obtain o1 e1 c1 where 1: "GraphObject_copyProperties E obj other = (o1, e1, c1)"
    by (cases "GraphObject_copyProperties E obj other") auto
  obtain o2 e2 c2 where 2: "GraphObject_copyCategories o1 other = (o2, e2, c2)"
    by (cases "GraphObject_copyCategories o1 other") auto
  have "obj_owner o2 = obj_owner o1" using copyCategories_owner [of o1 other] 2 by simp
  moreover have "obj_owner o1 = obj_owner obj" using copyProperties_owner [of E obj other] 1 by simp
  ultimately show ?thesis by (simp add: GraphObject_mergeFrom_def 1 2)
qed

lemma setOwner_owner:
  "obj_owner obj = Some g \<Longrightarrow> GraphObject_setOwner obj g' = obj"
  by (simp add: GraphObject_setOwner_def)

lemma perform_owner:
  "obj_owner obj = Some g \<Longrightarrow> obj_owner (perform E obj op) = Some g"
  by (cases op)
     (simp_all add: addCategory_owner deleteCategory_owner set_owner delete_owner
        copyCategories_owner copyProperties_owner mergeFrom_owner setOwner_owner)

lemma run_owner:
  "obj_owner obj = Some g \<Longrightarrow> obj_owner (run E obj ops) = Some g"
  by (induction ops arbitrary: obj) (simp_all add: perform_owner)

text \<open>
  C9. Once the owner of a graph object is set it never changes: after any sequence of
  operations the owner is the same graph, and \<open>_setOwner\<close> with any argument, another
  graph included, leaves the object as it is.
\<close>

theorem owner_never_changes:
  "obj_owner obj = Some g \<Longrightarrow>
     obj_owner (run E obj ops) = Some g \<and> GraphObject_setOwner obj g' = obj"
  by (simp add: run_owner setOwner_owner)

theorem owner_never_changes_witness:
  "obj_owner X_three = Some G1 \<and> G2 \<noteq> G1 \<and>
   obj_owner (run E0 X_three [OpSetOwner (Some G2), OpMergeFrom Y_nine, OpSetOwner None,
      OpSet (PropertyObj P0) Undefined]) = Some G1 \<and>
   GraphObject_setOwner X_three (Some G2) = X_three"
proof -
  have a: "obj_owner X_three = Some G1" by (simp add: X_three_def)
  have b: "G2 \<noteq> G1" by (simp add: G1_def G2_def)
  from owner_never_changes [OF a, of E0 "[OpSetOwner (Some G2), OpMergeFrom Y_nine,
      OpSetOwner None, OpSet (PropertyObj P0) Undefined]" "Some G2"]
  have 1: "obj_owner (run E0 X_three [OpSetOwner (Some G2), OpMergeFrom Y_nine, OpSetOwner None,
      OpSet (PropertyObj P0) Undefined]) = Some G1"
    and 2: "GraphObject_setOwner X_three (Some G2) = X_three" by blast+
  show ?thesis using a b 1 2 by blast
qed

section \<open>Categories\<close>

lemma addCategory_event:
  "snd (GraphObject_addCategory obj c) =
     (if c \<in> set (categories obj) then [] else [OnCategoryChanged Add c]) \<and>
   categories (fst (GraphObject_addCategory obj c)) =
     (if c \<in> set (categories obj) then categories obj else categories obj @ [c])"
  by (simp add: GraphObject_addCategory_def categories_def Let_def split: option.splits)

lemma deleteCategory_resolved:
  "resolve_category obj key = Some c \<Longrightarrow>
   GraphObject_deleteCategory obj key =
     (if c \<in> set (categories obj)
      then (obj\<lparr>obj_categories := Some (removeAll c (categories obj))\<rparr>,
            [OnCategoryChanged Delete c],
            (case key of CategoryId i \<Rightarrow> ReturnCategory c | CategoryObj c' \<Rightarrow> ReturnBool True))
      else (obj, [], ReturnBool False))"
  by (simp add: GraphObject_deleteCategory_def categories_def split: option.splits)

text \<open>
  C7, at the input where the code departs from it. \<open>deleteCategory\<close> called with an id
  that does not resolve to a category (the object has no owner, or the schema of the
  owner does not define the id) returns \<open>undefined\<close>: neither a category nor \<open>false\<close>.
\<close>

theorem deleteCategory_unresolved_id:
  "GraphObject_deleteCategory O_new (CategoryId ''a'') = (O_new, [], ReturnUndefined) \<and>
   GraphObject_deleteCategory O_catA (CategoryId ''b'') = (O_catA, [], ReturnUndefined)"
  by (simp add: GraphObject_deleteCategory_def resolve_category_def GraphObject_schema_def
      O_new_fields O_catA_def GraphObject_new_def GraphObject_addCategory_def
      GraphSchema_findCategory_def G1_def S_root_def S_child_def)

section \<open>The resolution order of get\<close>

lemma find_append_first:
  "find P (xs @ ys) = (case find P xs of Some x \<Rightarrow> Some x | None \<Rightarrow> find P ys)"
  by (induction xs) auto

lemma find_chain_find:
  "find_chain E g p c =
     map_option (\<lambda>c'. cat_getMetadata E c' g)
       (find (\<lambda>c'. hasOwn (cat_getMetadata E c' g) p) (chain c))"
  by (induction c rule: chain.induct) (simp_all add: Let_def)

lemma find_loop_find:
  "find_loop E g p cs =
     map_option (\<lambda>c'. cat_getMetadata E c' g)
       (find (\<lambda>c'. hasOwn (cat_getMetadata E c' g) p) (concat (map chain cs)))"
proof (induction cs)
  case Nil
  show ?case by simp
next
  case (Cons c cs)
  show ?case
    by (cases "find (\<lambda>c'. hasOwn (cat_getMetadata E c' g) p) (chain c)")
       (simp_all add: find_chain_find find_append_first Cons.IH)
qed

lemma find_owning_category:
  "GraphObject_find E obj p =
     map_option (\<lambda>(c, g). cat_getMetadata E c g) (owning_category E obj p)"
proof (cases "obj_owner obj")
  case None
  then show ?thesis
    by (simp add: GraphObject_find_def owning_category_def split: option.splits)
next
  case (Some g)
  show ?thesis
  proof (cases "obj_categories obj")
    case None
    with Some show ?thesis
      by (simp add: GraphObject_find_def owning_category_def categories_def)
  next
    case (Some cs)
    with \<open>obj_owner obj = Some g\<close> show ?thesis
      by (simp add: GraphObject_find_def owning_category_def categories_def find_loop_find
          option.map_comp comp_def)
  qed
qed

lemma stored_value:
  "(case obj_properties obj of None \<Rightarrow> Undefined | Some m \<Rightarrow> Map_get m p) = Map_get (entries obj) p"
  by (simp add: entries_def Map_get_def split: option.splits)

lemma find_category_value:
  "(case GraphObject_find E obj p of None \<Rightarrow> Undefined | Some metadata \<Rightarrow> metadata_get metadata p) =
     category_value E obj p"
  by (simp add: find_owning_category category_value_def split: option.splits)

lemma get_unresolved:
  "Map_get (entries obj) p = Undefined \<Longrightarrow>
   GraphObject_get E obj (PropertyObj p) =
     (if category_value E obj p \<noteq> Undefined then category_value E obj p
      else (case obj_owner obj of
              Some g \<Rightarrow> defaultValue (prop_getMetadata E p g)
            | None \<Rightarrow> Undefined))"
  by (simp add: GraphObject_get_def stored_value find_category_value Let_def
      split: option.splits)

text \<open>
  C2. \<open>get(P)\<close> resolves in this order: the object's own stored value if there is one;
  otherwise the value held by the metadata of the first category of the object, each
  category searched up its \<open>basedOn\<close> chain, whose metadata for the owner owns P;
  if still unresolved and the object has an owner, the default value of P's metadata for
  that owner; and otherwise the no-value result. (A stored value is never the unset
  sentinel, which is the hypothesis \<open>no_unset\<close>.)
\<close>

theorem get_resolution_order:
  assumes "no_unset obj"
  shows "GraphObject_get E obj (PropertyObj p) = get_spec E obj p"
proof (cases "map_of (entries obj) p")
  case (Some v)
  then have "(p, v) \<in> set (entries obj)" by (rule map_of_SomeD)
  with assms have "v \<noteq> Undefined" by (rule no_unsetD)
  moreover from Some have "Map_get (entries obj) p = v" by (simp add: Map_get_def)
  ultimately show ?thesis using Some
    by (simp add: GraphObject_get_def get_spec_def stored_value split: option.splits)
next
  case None
  then have "Map_get (entries obj) p = Undefined" by (simp add: Map_get_def)
  then show ?thesis using None by (simp add: get_unresolved get_spec_def)
qed

lemma O_catA_eq:
  "O_catA = \<lparr>obj_owner = Some G1, obj_categories = Some [catA], obj_properties = None\<rparr>"
  by (simp add: O_catA_def GraphObject_new_def GraphObject_addCategory_def)

theorem get_resolution_order_witness:
  "no_unset O_catA \<and> owning_category E_category O_catA P0 = Some (catB, G1) \<and>
   metadata_get (cat_getMetadata E_category catB G1) P0 = Val 7 \<and>
   GraphObject_get E_category O_catA (PropertyObj P0) = Val 7 \<and>
   owning_category E_category_unset O_catA P0 = Some (catB, G1) \<and>
   metadata_get (cat_getMetadata E_category_unset catB G1) P0 = Undefined \<and>
   defaultValue (prop_getMetadata E_category_unset P0 G1) = Val 0 \<and>
   GraphObject_get E_category_unset O_catA (PropertyObj P0) = Val 0"
proof -
  have ne: "catA \<noteq> catB" by (simp add: catA_def catB_def)
  have a: "no_unset O_catA" by (simp add: no_unset_def entries_def O_catA_eq)
  have b: "owning_category E_category O_catA P0 = Some (catB, G1)"
    using ne
    by (simp add: owning_category_def O_catA_eq categories_def E_category_def md_owning_def
        md0_def catA_def [unfolded catB_def] catB_def)
  have c: "metadata_get (cat_getMetadata E_category catB G1) P0 = Val 7"
    by (simp add: E_category_def md_owning_def)
  have b': "owning_category E_category_unset O_catA P0 = Some (catB, G1)"
    using ne
    by (simp add: owning_category_def O_catA_eq categories_def E_category_unset_def
        md_owning_unset_def md0_def catA_def [unfolded catB_def] catB_def)
  have c': "metadata_get (cat_getMetadata E_category_unset catB G1) P0 = Undefined"
    by (simp add: E_category_unset_def md_owning_unset_def md0_def)
  have d': "defaultValue (prop_getMetadata E_category_unset P0 G1) = Val 0"
    by (simp add: E_category_unset_def md0_def)
  have none: "map_of (entries O_catA) P0 = None" by (simp add: entries_def O_catA_eq)
  have own: "obj_owner O_catA = Some G1" by (simp add: O_catA_eq)
  have e: "get_spec E_category O_catA P0 = Val 7"
    by (simp add: get_spec_def category_value_def none b c)
  have e': "get_spec E_category_unset O_catA P0 = Val 0"
    by (simp add: get_spec_def category_value_def none b' c' own d')
  show ?thesis
    using a b c e b' c' d' e' get_resolution_order [OF a, of E_category P0]
      get_resolution_order [OF a, of E_category_unset P0]
    by simp
qed

section \<open>No stored value is the unset sentinel\<close>

lemma entries_new: "entries (GraphObject_new g category) = []"
  by (cases category)
     (simp_all add: GraphObject_new_def GraphObject_addCategory_def entries_def Let_def)

lemma addCategory_entries: "entries (fst (GraphObject_addCategory obj c)) = entries obj"
  by (simp add: GraphObject_addCategory_def entries_def Let_def)

lemma deleteCategory_entries: "entries (fst (GraphObject_deleteCategory obj key)) = entries obj"
  by (simp add: GraphObject_deleteCategory_def entries_def split: option.splits)

lemma setOwner_entries: "entries (GraphObject_setOwner obj g) = entries obj"
  by (simp add: GraphObject_setOwner_def entries_def)

lemma delete_entries:
  "set (entries (fst (GraphObject_delete E obj key))) \<subseteq> set (entries obj)"
proof (cases "resolve_property obj key")
  case None
  then show ?thesis by (simp add: GraphObject_delete_def)
next
  case (Some p)
  then show ?thesis
    using set_Map_delete [of "entries obj" p]
    by (cases "obj_properties obj") (auto simp add: GraphObject_delete_def entries_def)
qed

lemma set_entries:
  assumes "v \<noteq> Undefined"
  shows "set (entries (fst (GraphObject_set E obj key v))) \<subseteq> insert (the (resolve_property obj key), v) (set (entries obj))"
proof (cases "resolve_property obj key")
  case None
  with assms show ?thesis by (auto simp add: GraphObject_set_def)
next
  case (Some p)
  with assms have "GraphObject_set E obj key v = GraphObject_set E obj (PropertyObj p) v"
    by (simp add: GraphObject_set_def)
  with assms Some show ?thesis
    using set_Map_set [of "entries obj" p v] by (auto simp add: set_defined)
qed

lemma delete_no_unset: "no_unset obj \<Longrightarrow> no_unset (fst (GraphObject_delete E obj key))"
  using delete_entries [of E obj key] by (auto simp: no_unset_def)

lemma set_no_unset: "no_unset obj \<Longrightarrow> no_unset (fst (GraphObject_set E obj key v))"
proof (cases "v = Undefined")
  case True
  assume "no_unset obj"
  with True show ?thesis by (simp add: set_unset delete_no_unset)
next
  case False
  assume "no_unset obj"
  with False set_entries [OF False, of E obj key] show ?thesis
    by (auto simp: no_unset_def)
qed

lemma copyProperties_loop_step:
  "copyProperties_loop imp ((p, v) # om) (m, evs, changed) =
     (if strict_eq (Map_get m p) v \<or> copy_skipped (imp p) (Map_get m p) v
      then copyProperties_loop imp om (m, evs, changed)
      else copyProperties_loop imp om
             (Map_set m p v, evs @ [OnPropertyChanged (prop_id p)], True))"
  by (simp add: Let_def)

lemma copyProperties_loop_entries:
  "set (fst (copyProperties_loop imp om st)) \<subseteq> set (fst st) \<union> set om"
proof (induction om arbitrary: st)
  case Nil
  show ?case by simp
next
  case (Cons e om)
  obtain p v where e: "e = (p, v)" by (cases e)
  obtain m evs changed where st: "st = (m, evs, changed)" by (cases st)
  show ?case
  proof (cases "strict_eq (Map_get m p) v \<or> copy_skipped (imp p) (Map_get m p) v")
    case True
    with Cons.IH [of "(m, evs, changed)"] show ?thesis
      by (auto simp add: e st copyProperties_loop_step simp del: copyProperties_loop.simps)
  next
    case False
    with Cons.IH [of "(Map_set m p v, evs @ [OnPropertyChanged (prop_id p)], True)"]
      set_Map_set [of m p v]
    show ?thesis
      by (auto simp add: e st copyProperties_loop_step simp del: copyProperties_loop.simps)
  qed
qed

lemma copyProperties_entries:
  "set (entries (fst (GraphObject_copyProperties E obj other))) \<subseteq>
     set (entries obj) \<union> set (entries other)"
proof (cases "obj_properties other")
  case None
  then show ?thesis by (simp add: GraphObject_copyProperties_def)
next
  case (Some om)
  obtain m' evs changed where
    loop: "copyProperties_loop (import_step E obj other) om (entries obj, [], False) = (m', evs, changed)"
    by (cases "copyProperties_loop (import_step E obj other) om (entries obj, [], False)") auto
  from copyProperties_loop_entries [of "import_step E obj other" om "(entries obj, [], False)"] loop
  have "set m' \<subseteq> set (entries obj) \<union> set om" by simp
  with Some loop show ?thesis
    by (auto simp add: GraphObject_copyProperties_def entries_def)
qed

lemma copyCategories_entries:
  "entries (fst (GraphObject_copyCategories obj other)) = entries obj"
proof (cases "obj_categories other")
  case None
  then show ?thesis by (simp add: GraphObject_copyCategories_def)
next
  case (Some ocs)
  obtain cs' evs changed where
    "copyCategories_loop ocs (categories obj, [], False) = (cs', evs, changed)"
    by (cases "copyCategories_loop ocs (categories obj, [], False)") auto
  with Some show ?thesis
    by (simp add: GraphObject_copyCategories_def categories_def entries_def)
qed

lemma mergeFrom_fst:
  "fst (GraphObject_mergeFrom E obj other) =
     fst (GraphObject_copyCategories (fst (GraphObject_copyProperties E obj other)) other)"
  by (cases "GraphObject_copyProperties E obj other";
      cases "GraphObject_copyCategories (fst (GraphObject_copyProperties E obj other)) other")
     (simp add: GraphObject_mergeFrom_def)

lemma copyProperties_no_unset:
  "no_unset obj \<Longrightarrow> no_unset other \<Longrightarrow> no_unset (fst (GraphObject_copyProperties E obj other))"
  using copyProperties_entries [of E obj other] by (auto simp: no_unset_def)

lemma perform_no_unset:
  assumes "no_unset obj" and "\<And>other. operand op = Some other \<Longrightarrow> no_unset other"
  shows "no_unset (perform E obj op)"
proof (cases op)
  case (OpAddCategory c)
  with assms(1) show ?thesis by (simp add: no_unset_def addCategory_entries)
next
  case (OpDeleteCategory key)
  with assms(1) show ?thesis by (simp add: no_unset_def deleteCategory_entries)
next
  case (OpSet key v)
  with assms(1) show ?thesis by (simp add: set_no_unset)
next
  case (OpDelete key)
  with assms(1) show ?thesis by (simp add: delete_no_unset)
next
  case (OpCopyCategories other)
  with assms(1) show ?thesis by (simp add: no_unset_def copyCategories_entries)
next
  case (OpCopyProperties other)
  with assms show ?thesis by (simp add: copyProperties_no_unset)
next
  case (OpSetOwner g)
  with assms(1) show ?thesis by (simp add: no_unset_def setOwner_entries)
next
  case (OpMergeFrom other)
  with assms have "no_unset (fst (GraphObject_copyProperties E obj other))"
    by (simp add: copyProperties_no_unset)
  then show ?thesis
    by (simp add: OpMergeFrom mergeFrom_fst no_unset_def copyCategories_entries)
qed

lemma reachable_no_unset: "reachable E obj \<Longrightarrow> no_unset obj"
proof (induction rule: reachable.induct)
  case (constructed g category)
  show ?case by (simp add: no_unset_def entries_new)
next
  case (unary obj op)
  then show ?case by (intro perform_no_unset) simp_all
next
  case (binary obj op other)
  then show ?case by (intro perform_no_unset) simp_all
qed

text \<open>
  C3. \<open>set(P, undefined)\<close> has exactly the effect of \<open>delete(P)\<close>: the same resulting
  object and the same events. And in every state a graph object can reach, from its
  construction through any sequence of operations (whose operands are reachable states
  of graph objects as well), no value stored in the property map is the unset sentinel.
\<close>

theorem unset_is_delete:
  "GraphObject_set E obj key Undefined =
     (fst (GraphObject_delete E obj key), fst (snd (GraphObject_delete E obj key)))
   \<and> (reachable E obj' \<longrightarrow> (\<forall>(p, v) \<in> set (entries obj'). v \<noteq> Undefined))"
proof
  show "GraphObject_set E obj key Undefined =
     (fst (GraphObject_delete E obj key), fst (snd (GraphObject_delete E obj key)))"
    by (cases "GraphObject_delete E obj key") (simp add: GraphObject_set_def)
  show "reachable E obj' \<longrightarrow> (\<forall>(p, v) \<in> set (entries obj'). v \<noteq> Undefined)"
    using reachable_no_unset [of E obj'] no_unsetD [of obj'] by auto
qed

theorem unset_is_delete_witness:
  "reachable E0 O_five \<and> entries O_five = [(P0, Val 5)] \<and>
   reachable E0 (fst (GraphObject_copyProperties E0 O_five O_five)) \<and>
   reachable E0 (fst (GraphObject_set E0 O_five (PropertyObj P0) Undefined)) \<and>
   entries (fst (GraphObject_set E0 O_five (PropertyObj P0) Undefined)) = [] \<and>
   GraphObject_delete E0 O_five (PropertyObj P0) =
     (fst (GraphObject_set E0 O_five (PropertyObj P0) Undefined), [OnPropertyChanged ''p''], True)"
proof -
  have "reachable E0 (perform E0 (GraphObject_new None None) (OpSet (PropertyObj P0) (Val 5)))"
    by (rule reachable.unary [OF reachable.constructed]) simp
  then have a: "reachable E0 O_five" by (simp add: O_five_def O_new_def)
  have "reachable E0 (perform E0 O_five (OpCopyProperties O_five))"
    by (rule reachable.binary [OF a _ a]) simp
  then have b: "reachable E0 (fst (GraphObject_copyProperties E0 O_five O_five))" by simp
  have "reachable E0 (perform E0 O_five (OpSet (PropertyObj P0) Undefined))"
    by (rule reachable.unary [OF a]) simp
  then have c: "reachable E0 (fst (GraphObject_set E0 O_five (PropertyObj P0) Undefined))" by simp
  have d: "GraphObject_delete E0 O_five (PropertyObj P0) =
      (\<lparr>obj_owner = None, obj_categories = None, obj_properties = Some []\<rparr>,
       [OnPropertyChanged ''p''], True)"
    by (simp add: O_five_eq GraphObject_delete_def resolve_metadata_def E0_def md0_def
        Map_has_def Map_delete_def P0_def)
  from unset_is_delete [of E0 O_five "PropertyObj P0" O_five] a
  have e: "GraphObject_set E0 O_five (PropertyObj P0) Undefined =
     (fst (GraphObject_delete E0 O_five (PropertyObj P0)),
      fst (snd (GraphObject_delete E0 O_five (PropertyObj P0))))"
    and f: "\<forall>(p, v) \<in> set (entries O_five). v \<noteq> Undefined" by blast+
  have g: "entries O_five = [(P0, Val 5)]" by (simp add: O_five_eq entries_def)
  show ?thesis using a b c g f by (simp add: e d entries_def)
qed

section \<open>copyProperties\<close>

text \<open>The pairs the loop writes, decided against the map \<open>m\<close> it starts from.\<close>

lemma copy_skipped_iff:
  "(\<not> copy_skipped md own v) =
     (case md of
        None \<Rightarrow> True
      | Some md \<Rightarrow>
          isSharable md \<and> \<not> (isImmutable md \<and> own \<noteq> Undefined) \<and>
          \<not> (canValidate md \<and> \<not> validate md v))"
  by (auto simp add: copy_skipped_def split: option.splits)

lemma written_unaffected:
  assumes "p \<notin> fst ` set om"
  shows "filter (\<lambda>(q, w). \<not> strict_eq (Map_get (Map_set m p v) q) w \<and>
            \<not> copy_skipped (imp q) (Map_get (Map_set m p v) q) w) om =
         filter (\<lambda>(q, w). \<not> strict_eq (Map_get m q) w \<and> \<not> copy_skipped (imp q) (Map_get m q) w) om"
proof (rule filter_cong [OF refl])
  fix e assume "e \<in> set om"
  with assms have "fst e \<noteq> p" by auto
  then show "(case e of (q, w) \<Rightarrow> \<not> strict_eq (Map_get (Map_set m p v) q) w \<and>
            \<not> copy_skipped (imp q) (Map_get (Map_set m p v) q) w) =
        (case e of (q, w) \<Rightarrow> \<not> strict_eq (Map_get m q) w \<and> \<not> copy_skipped (imp q) (Map_get m q) w)"
    by (cases e) (simp add: Map_get_Map_set)
qed

lemma copyProperties_loop_written:
  assumes "distinct (map fst om)"
  shows "copyProperties_loop imp om (m, evs, changed) =
     (foldl (\<lambda>m (p, v). Map_set m p v) m
        (filter (\<lambda>(q, w). \<not> strict_eq (Map_get m q) w \<and> \<not> copy_skipped (imp q) (Map_get m q) w) om),
      evs @ map (\<lambda>(p, v). OnPropertyChanged (prop_id p))
        (filter (\<lambda>(q, w). \<not> strict_eq (Map_get m q) w \<and> \<not> copy_skipped (imp q) (Map_get m q) w) om),
      changed \<or>
        filter (\<lambda>(q, w). \<not> strict_eq (Map_get m q) w \<and> \<not> copy_skipped (imp q) (Map_get m q) w) om \<noteq> [])"
  using assms
proof (induction om arbitrary: m evs changed)
  case Nil
  show ?case by simp
next
  case (Cons e om)
  obtain p v where e: "e = (p, v)" by (cases e)
  from Cons.prems e have fresh: "p \<notin> fst ` set om" and dist: "distinct (map fst om)"
    by simp_all
  show ?case
  proof (cases "strict_eq (Map_get m p) v \<or> copy_skipped (imp p) (Map_get m p) v")
    case True
    then show ?thesis
      using Cons.IH [OF dist, of m evs changed]
      by (auto simp add: e copyProperties_loop_step simp del: copyProperties_loop.simps)
  next
    case False
    then show ?thesis
      using Cons.IH [OF dist, of "Map_set m p v" "evs @ [OnPropertyChanged (prop_id p)]" True]
      by (simp add: e copyProperties_loop_step written_unaffected [OF fresh]
          del: copyProperties_loop.simps)
  qed
qed

lemma copied_pairs_loop:
  "copied_pairs E obj other =
     filter (\<lambda>(q, w). \<not> strict_eq (Map_get (entries obj) q) w \<and>
        \<not> copy_skipped (import_step E obj other q) (Map_get (entries obj) q) w) (entries other)"
  unfolding copied_pairs_def copy_skipped_iff ..


lemma copyProperties_written:
  assumes "distinct (map fst (entries other))"
  shows "GraphObject_copyProperties E obj other =
     ((if entries other = [] then obj
       else obj\<lparr>obj_properties :=
              Some (foldl (\<lambda>m (p, v). Map_set m p v) (entries obj) (copied_pairs E obj other))\<rparr>),
      map (\<lambda>(p, v). OnPropertyChanged (prop_id p)) (copied_pairs E obj other),
      copied_pairs E obj other \<noteq> [])"
proof (cases "obj_properties other")
  case None
  then show ?thesis
    by (simp add: GraphObject_copyProperties_def copied_pairs_def entries_def)
next
  case (Some om)
  then have om: "entries other = om" by (simp add: entries_def)
  show ?thesis
  proof (cases "om = []")
    case True
    with Some om show ?thesis
      by (simp add: GraphObject_copyProperties_def copied_pairs_def)
  next
    case False
    have m: "(case obj_properties obj of None \<Rightarrow> [] | Some m \<Rightarrow> m) = entries obj"
      by (simp add: entries_def)
    from assms om have "distinct (map fst om)" by simp
    from copyProperties_loop_written [OF this, of "import_step E obj other" "entries obj" "[]" False]
    show ?thesis using False Some
      by (simp add: GraphObject_copyProperties_def m om copied_pairs_loop)
  qed
qed





section \<open>The keys of the property map are distinct\<close>

lemma delete_entries_eq:
  "entries (fst (GraphObject_delete E obj key)) = entries obj \<or>
   (\<exists>p. entries (fst (GraphObject_delete E obj key)) = Map_delete (entries obj) p)"
proof (cases "resolve_property obj key")
  case None
  then show ?thesis by (simp add: GraphObject_delete_def)
next
  case (Some p)
  then show ?thesis
    by (cases "obj_properties obj") (auto simp add: GraphObject_delete_def entries_def)
qed

lemma set_entries_eq:
  "entries (fst (GraphObject_set E obj key v)) = entries obj \<or>
   (\<exists>p. entries (fst (GraphObject_set E obj key v)) = Map_delete (entries obj) p) \<or>
   (\<exists>p. entries (fst (GraphObject_set E obj key v)) = Map_set (entries obj) p v)"
proof (cases "v = Undefined")
  case True
  then show ?thesis using delete_entries_eq [of E obj key] by (auto simp add: set_unset)
next
  case False
  show ?thesis
  proof (cases "resolve_property obj key")
    case None
    with False show ?thesis by (simp add: GraphObject_set_def)
  next
    case (Some p)
    with False have "GraphObject_set E obj key v = GraphObject_set E obj (PropertyObj p) v"
      by (simp add: GraphObject_set_def)
    with False show ?thesis by (auto simp add: set_defined)
  qed
qed

lemma distinct_foldl_Map_set:
  "distinct (map fst m) \<Longrightarrow> distinct (map fst (foldl (\<lambda>m (p, v). Map_set m p v) m ws))"
  by (induction ws arbitrary: m) (auto simp add: distinct_Map_set)

lemma copyProperties_distinct:
  assumes "distinct (map fst (entries obj))" and "distinct (map fst (entries other))"
  shows "distinct (map fst (entries (fst (GraphObject_copyProperties E obj other))))"
  using assms(1) by (simp add: copyProperties_written [OF assms(2)] distinct_foldl_Map_set)

lemma perform_distinct:
  assumes "distinct (map fst (entries obj))"
    and "\<And>other. operand op = Some other \<Longrightarrow> distinct (map fst (entries other))"
  shows "distinct (map fst (entries (perform E obj op)))"
proof (cases op)
  case (OpAddCategory c)
  with assms(1) show ?thesis by (simp add: addCategory_entries)
next
  case (OpDeleteCategory key)
  with assms(1) show ?thesis by (simp add: deleteCategory_entries)
next
  case (OpSet key v)
  with assms(1) set_entries_eq [of E obj key v] show ?thesis
    by (auto simp add: distinct_Map_set distinct_Map_delete)
next
  case (OpDelete key)
  with assms(1) delete_entries_eq [of E obj key] show ?thesis
    by (auto simp add: distinct_Map_delete)
next
  case (OpCopyCategories other)
  with assms(1) show ?thesis by (simp add: copyCategories_entries)
next
  case (OpCopyProperties other)
  with assms show ?thesis by (simp add: copyProperties_distinct)
next
  case (OpSetOwner g)
  with assms(1) show ?thesis by (simp add: setOwner_entries)
next
  case (OpMergeFrom other)
  with assms show ?thesis
    by (simp add: mergeFrom_fst copyCategories_entries copyProperties_distinct)
qed

lemma reachable_distinct_keys: "reachable E obj \<Longrightarrow> distinct (map fst (entries obj))"
proof (induction rule: reachable.induct)
  case (constructed g category)
  show ?case by (simp add: entries_new)
next
  case (unary obj op)
  then show ?case by (intro perform_distinct) simp_all
next
  case (binary obj op other)
  then show ?case by (intro perform_distinct) simp_all
qed

end
